theory Spec2Isabelle
  imports Main "HOL-Library.Word"
begin

section \<open>Strings of the runtime\<close>

text \<open>
  A JavaScript string is a sequence of UTF-16 code units, and the regular expressions of
  \<^verbatim>\<open>parseResponse\<close> carry no \<^verbatim>\<open>u\<close> flag, so they work on code units too.
  A string is therefore a list of 16-bit words; \<open>utf16\<close> writes an ASCII literal.
\<close>

type_synonym js_string = "16 word list"

definition utf16 :: "string \<Rightarrow> js_string" where
  "utf16 s = map (\<lambda>c. of_nat (of_char c)) s"

text \<open>The class \<^verbatim>\<open>\w\<close> is \<^verbatim>\<open>[A-Za-z0-9_]\<close>.\<close>

definition is_word_char :: "16 word \<Rightarrow> bool" where
  "is_word_char c \<longleftrightarrow>
     (0x41 \<le> c \<and> c \<le> 0x5A) \<or> (0x61 \<le> c \<and> c \<le> 0x7A) \<or> (0x30 \<le> c \<and> c \<le> 0x39) \<or> c = 0x5F"

text \<open>
  The dot of a regular expression without the \<^verbatim>\<open>s\<close> flag matches every code unit but the
  four line terminators LF, CR, U+2028 and U+2029.
\<close>

definition is_line_terminator :: "16 word \<Rightarrow> bool" where
  "is_line_terminator c \<longleftrightarrow> c = 0x0A \<or> c = 0x0D \<or> c = 0x2028 \<or> c = 0x2029"

text \<open>
  \<^verbatim>\<open>String.prototype.trim\<close> removes white space and line terminators: TAB, VT, FF, the
  space separators of Unicode (category Zs), NBSP, the byte order mark, and the four line
  terminators.
\<close>

definition is_white_space :: "16 word \<Rightarrow> bool" where
  "is_white_space c \<longleftrightarrow>
     c = 0x09 \<or> c = 0x0B \<or> c = 0x0C \<or> c = 0x20 \<or> c = 0xA0 \<or> c = 0x1680
     \<or> (0x2000 \<le> c \<and> c \<le> 0x200A) \<or> c = 0x202F \<or> c = 0x205F \<or> c = 0x3000 \<or> c = 0xFEFF
     \<or> is_line_terminator c"

definition trim :: "js_string \<Rightarrow> js_string" where
  "trim s = rev (dropWhile is_white_space (rev (dropWhile is_white_space s)))"

abbreviation LBRACKET :: "16 word" where "LBRACKET \<equiv> 0x5B"
abbreviation RBRACKET :: "16 word" where "RBRACKET \<equiv> 0x5D"
abbreviation BAR :: "16 word" where "BAR \<equiv> 0x7C"

section \<open>The two directive patterns\<close>

text \<open>\<open>literal p s\<close> matches the literal text \<open>p\<close> at the start of \<open>s\<close> and gives the rest.\<close>

fun literal :: "js_string \<Rightarrow> js_string \<Rightarrow> js_string option" where
  "literal [] s = Some s"
| "literal (p # ps) [] = None"
| "literal (p # ps) (c # cs) = (if p = c then literal ps cs else None)"

text \<open>
  \<^verbatim>\<open>/\[DELEGATE:(\w+)\]/\<close> tried at the start of \<open>s\<close>: the capture and the text after the
  match. The greedy \<^verbatim>\<open>\w+\<close> takes every word character; giving one back never helps, since
  the closing bracket is no word character, so the backtracking matcher succeeds exactly
  when the longest run is non-empty and a closing bracket follows it.
\<close>

definition match_delegate :: "js_string \<Rightarrow> (js_string \<times> js_string) option" where
  "match_delegate s =
     (case literal (utf16 ''[DELEGATE:'') s of
        None \<Rightarrow> None
      | Some r \<Rightarrow>
          (let tok = takeWhile is_word_char r in
           if tok = [] then None
           else (case dropWhile is_word_char r of
                   [] \<Rightarrow> None
                 | c # rest \<Rightarrow> if c = RBRACKET then Some (tok, rest) else None)))"

text \<open>
  \<^verbatim>\<open>/\[REMEMBER:(\w+)\|(.*?)\]/\<close> tried at the start of \<open>s\<close>: both captures and the text
  after the match. The lazy \<^verbatim>\<open>.*?\<close> stops at the first closing bracket, and fails when a line
  terminator or the end of the text comes before one.
\<close>

definition is_content_char :: "16 word \<Rightarrow> bool" where
  "is_content_char c \<longleftrightarrow> c \<noteq> RBRACKET \<and> \<not> is_line_terminator c"

definition match_remember :: "js_string \<Rightarrow> (js_string \<times> js_string \<times> js_string) option" where
  "match_remember s =
     (case literal (utf16 ''[REMEMBER:'') s of
        None \<Rightarrow> None
      | Some r \<Rightarrow>
          (let kind = takeWhile is_word_char r in
           if kind = [] then None
           else (case dropWhile is_word_char r of
                   [] \<Rightarrow> None
                 | c # r2 \<Rightarrow>
                     if c \<noteq> BAR then None
                     else (case dropWhile is_content_char r2 of
                             [] \<Rightarrow> None
                           | d # rest \<Rightarrow>
                               if d = RBRACKET
                               then Some (kind, takeWhile is_content_char r2, rest)
                               else None))))"

lemma literal_length: "literal p s = Some r \<Longrightarrow> length s = length p + length r"
  by (induction p s rule: literal.induct) (auto split: if_splits)

lemma literal_iff: "literal p s = Some r \<longleftrightarrow> s = p @ r"
  by (induction p s rule: literal.induct) auto

lemma match_delegate_shorter:
  "match_delegate s = Some (tok, rest) \<Longrightarrow> length rest < length s"
proof -
  assume m: "match_delegate s = Some (tok, rest)"
  then obtain r where r: "literal (utf16 ''[DELEGATE:'') s = Some r"
    by (auto simp: match_delegate_def split: option.splits)
  with m have "dropWhile is_word_char r = RBRACKET # rest"
    by (auto simp: match_delegate_def Let_def split: list.splits if_splits)
  then have "length rest < length r"
    using length_dropWhile_le [of is_word_char r] by simp
  with literal_length [OF r] show ?thesis by simp
qed

lemma match_remember_shorter:
  "match_remember s = Some (kind, body, rest) \<Longrightarrow> length rest < length s"
proof -
  assume m: "match_remember s = Some (kind, body, rest)"
  then obtain r where r: "literal (utf16 ''[REMEMBER:'') s = Some r"
    by (auto simp: match_remember_def split: option.splits)
  with m obtain r2 where r2: "dropWhile is_word_char r = BAR # r2"
    and d: "dropWhile is_content_char r2 = RBRACKET # rest"
    by (auto simp: match_remember_def Let_def split: list.splits if_splits)
  have "length rest < length r2"
    using d length_dropWhile_le [of is_content_char r2] by simp
  moreover have "length r2 < length r"
    using r2 length_dropWhile_le [of is_word_char r] by simp
  ultimately show ?thesis using literal_length [OF r] by simp
qed

text \<open>
  \<^verbatim>\<open>text.match(/\[DELEGATE:(\w+)\]/)\<close>: the pattern is tried at every position from the
  left; the result is the capture of the first match.
\<close>

fun first_delegate :: "js_string \<Rightarrow> js_string option" where
  "first_delegate [] = None"
| "first_delegate (c # cs) =
     (case match_delegate (c # cs) of
        Some (tok, rest) \<Rightarrow> Some tok
      | None \<Rightarrow> first_delegate cs)"

text \<open>
  \<^verbatim>\<open>text.matchAll(/\[REMEMBER:(\w+)\|(.*?)\]/g)\<close>: after a match the search goes on behind
  it, otherwise one code unit further.
\<close>

function all_remember :: "js_string \<Rightarrow> (js_string \<times> js_string) list" where
  "all_remember [] = []"
| "all_remember (c # cs) =
     (case match_remember (c # cs) of
        Some (kind, body, rest) \<Rightarrow> (kind, body) # all_remember rest
      | None \<Rightarrow> all_remember cs)"
  by pat_completeness auto
termination
  by (relation "measure length") (auto dest: match_remember_shorter)

text \<open>\<^verbatim>\<open>.replace(/\[DELEGATE:\w+\]/g, '')\<close> and \<^verbatim>\<open>.replace(/\[REMEMBER:\w+\|.*?\]/g, '')\<close>.\<close>

function remove_delegates :: "js_string \<Rightarrow> js_string" where
  "remove_delegates [] = []"
| "remove_delegates (c # cs) =
     (case match_delegate (c # cs) of
        Some (tok, rest) \<Rightarrow> remove_delegates rest
      | None \<Rightarrow> c # remove_delegates cs)"
  by pat_completeness auto
termination
  by (relation "measure length") (auto dest: match_delegate_shorter)

function remove_remembers :: "js_string \<Rightarrow> js_string" where
  "remove_remembers [] = []"
| "remove_remembers (c # cs) =
     (case match_remember (c # cs) of
        Some (kind, body, rest) \<Rightarrow> remove_remembers rest
      | None \<Rightarrow> c # remove_remembers cs)"
  by pat_completeness auto
termination
  by (relation "measure length") (auto dest: match_remember_shorter)

section \<open>Types of the agent framework\<close>

datatype AgentRole = Orchestrator | Dev | Research | Comms | Workflow

datatype json = JNull | JBool bool | JNumber int | JString js_string
  | JArray "json list" | JObject "(js_string \<times> json) list"

type_synonym json_record = "(js_string \<times> json) list"

text \<open>
  \<^verbatim>\<open>Omit<Memory, 'id' | 'createdAt'>\<close>. The casts of \<^verbatim>\<open>parseResponse\<close> check nothing, so
  the kind of a memory and the delegation target are any word of the pattern.
\<close>

record MemoryInput =
  mem_type :: js_string
  mem_content :: js_string
  mem_metadata :: json_record
  mem_agentRole :: "AgentRole option"

record AgentResponse =
  content :: js_string
  delegateTo :: "js_string option"
  memoriesToStore :: "MemoryInput list option"

section \<open>parseResponse\<close>

definition parseResponse :: "AgentRole \<Rightarrow> js_string \<Rightarrow> AgentResponse" where
  "parseResponse role text =
     (let delegateMatch = first_delegate text;
          memoryMatches = all_remember text;
          memories = map (\<lambda>(kind, body).
              \<lparr>mem_type = kind, mem_content = body, mem_metadata = [],
               mem_agentRole = Some role\<rparr>) memoryMatches;
          cleanText = trim (remove_remembers (remove_delegates text))
      in \<lparr>content = cleanText,
          delegateTo = delegateMatch,
          memoriesToStore = (if memories = [] then None else Some memories)\<rparr>)"

section \<open>The memory store\<close>

text \<open>
  The module \<^verbatim>\<open>memory/database.ts\<close> is not among the sources; the functions that
  \<^verbatim>\<open>base-agent.ts\<close> imports from it are modelled from the store contract of the
  specification. Identifiers and timestamps, which the store generates, are left out: the
  position in a list stands for the time of writing.
\<close>

datatype MsgRole = user | assistant

record Message =
  msg_role :: MsgRole
  msg_content :: js_string
  msg_agentRole :: "AgentRole option"

record UserPreference =
  pref_key :: js_string
  pref_value :: js_string
  pref_category :: js_string

text \<open>
  Modelled from the spec: the state of the absent store, with the memories most recent
  first, the current preferences, and the conversation turns of all sessions oldest first.
\<close>

record store =
  memories :: "MemoryInput list"
  preferences :: "UserPreference list"
  conversations :: "(js_string \<times> Message) list"

text \<open>
  Modelled from the spec: \<^verbatim>\<open>saveMemory\<close> of the absent \<^verbatim>\<open>memory/database.ts\<close>; a memory is
  appended and never changed.
\<close>

definition saveMemory :: "store \<Rightarrow> MemoryInput \<Rightarrow> store" where
  "saveMemory db m = db\<lparr>memories := m # memories db\<rparr>"

text \<open>
  Modelled from the spec: \<^verbatim>\<open>getMemories(type?, agentRole?, limit)\<close> of the absent
  \<^verbatim>\<open>memory/database.ts\<close>; the memories of the kind and of the role, most recent first, cut
  at the limit.
\<close>

definition getMemories ::
  "js_string option \<Rightarrow> AgentRole option \<Rightarrow> nat \<Rightarrow> store \<Rightarrow> MemoryInput list" where
  "getMemories kind agentRole limit db =
     take limit (filter (\<lambda>m. (case kind of None \<Rightarrow> True | Some k \<Rightarrow> mem_type m = k)
                        \<and> (case agentRole of None \<Rightarrow> True | Some r \<Rightarrow> mem_agentRole m = Some r))
                   (memories db))"

text \<open>
  Modelled from the spec: \<^verbatim>\<open>getAllPreferences\<close> of the absent \<^verbatim>\<open>memory/database.ts\<close>; all
  current preferences, whatever the role.
\<close>

definition getAllPreferences :: "store \<Rightarrow> UserPreference list" where
  "getAllPreferences db = preferences db"

text \<open>
  Modelled from the spec: \<^verbatim>\<open>saveConversationMessage\<close> of the absent
  \<^verbatim>\<open>memory/database.ts\<close>; the turn is appended to the log.
\<close>

definition saveConversationMessage :: "store \<Rightarrow> js_string \<Rightarrow> Message \<Rightarrow> store" where
  "saveConversationMessage db sessionId m = db\<lparr>conversations := conversations db @ [(sessionId, m)]\<rparr>"

text \<open>
  Modelled from the spec: \<^verbatim>\<open>getConversationHistory\<close> of the absent
  \<^verbatim>\<open>memory/database.ts\<close>, called without a limit; the turns of the session, oldest first.
\<close>

definition getConversationHistory :: "store \<Rightarrow> js_string \<Rightarrow> Message list" where
  "getConversationHistory db sessionId =
     map snd (filter (\<lambda>(sid, m). sid = sessionId) (conversations db))"

section \<open>Tools, configuration and the reasoning backend\<close>

text \<open>
  What a \<^verbatim>\<open>throw\<close> carries: an \<^verbatim>\<open>Error\<close> object with its message, or any other value
  with its \<^verbatim>\<open>String(...)\<close> rendering.
\<close>

datatype thrown = ErrorObject js_string | OtherValue js_string

fun error_text :: "thrown \<Rightarrow> js_string" where
  "error_text (ErrorObject message) = message"
| "error_text (OtherValue rendering) = rendering"

text \<open>
  A tool runs against the store and the world outside of the process (files, shell,
  network), of type \<open>'x\<close>; it returns a text or throws.
\<close>

record 'x Tool =
  tool_name :: js_string
  tool_description :: js_string
  inputSchema :: json_record
  execute :: "json_record \<Rightarrow> store \<times> 'x \<Rightarrow> (thrown + js_string) \<times> (store \<times> 'x)"

record 'x AgentConfig =
  cfg_name :: js_string
  cfg_role :: AgentRole
  cfg_description :: js_string
  systemPrompt :: js_string
  cfg_model :: "js_string option"
  cfg_tools :: "'x Tool list option"

record ToolUseBlock =
  call_id :: js_string
  call_name :: js_string
  call_input :: json_record

datatype ContentBlock = TextBlock js_string | ToolUse ToolUseBlock | OtherBlock

datatype StopReason = end_turn | max_tokens | stop_sequence | tool_use | other_reason

record Response =
  stop_reason :: StopReason
  blocks :: "ContentBlock list"

text \<open>A tool result without \<^verbatim>\<open>is_error\<close> has \<open>is_error = False\<close>.\<close>

record ToolResultBlock =
  tool_use_id :: js_string
  result_content :: js_string
  is_error :: bool

datatype MessageContent =
  Text js_string | Blocks "ContentBlock list" | Results "ToolResultBlock list"

record MessageParam =
  role :: MsgRole
  param_content :: MessageContent

record ToolDecl =
  decl_name :: js_string
  decl_description :: js_string
  input_schema :: json_record

record Request =
  model :: js_string
  req_max_tokens :: nat
  system :: js_string
  messages :: "MessageParam list"
  tools :: "ToolDecl list option"

text \<open>
  The backend is outside of the program: a function of the request and of its own state
  \<open>'b\<close>, which answers or fails (the rejected promise of \<^verbatim>\<open>messages.create\<close>).
\<close>

type_synonym 'b Backend = "Request \<Rightarrow> 'b \<Rightarrow> (thrown + Response) \<times> 'b"

section \<open>buildSystemPrompt\<close>

text \<open>
  The accumulator of the \<^verbatim>\<open>reduce\<close> is an ordinary object \<^verbatim>\<open>{}\<close>, so
  \<^verbatim>\<open>acc[p.category]\<close> also reads what the object inherits from \<^verbatim>\<open>Object.prototype\<close>.
  For a category with one of these names the read gives a function (or the prototype
  itself) instead of \<^verbatim>\<open>undefined\<close>, \<^verbatim>\<open>|| []\<close> keeps it, and the call of its
  \<^verbatim>\<open>push\<close> throws a TypeError (the message is that of V8).
\<close>

definition inherited_keys :: "js_string list" where
  "inherited_keys = map utf16
     [''constructor'', ''__defineGetter__'', ''__defineSetter__'', ''hasOwnProperty'',
      ''__lookupGetter__'', ''__lookupSetter__'', ''isPrototypeOf'', ''propertyIsEnumerable'',
      ''toString'', ''valueOf'', ''__proto__'', ''toLocaleString'']"

type_synonym groups = "(js_string \<times> UserPreference list) list"

text \<open>\<^verbatim>\<open>acc[c] = acc[c] || []; acc[c].push(p)\<close> on own keys, which keep the order of creation.\<close>

fun push_group :: "groups \<Rightarrow> js_string \<Rightarrow> UserPreference \<Rightarrow> groups" where
  "push_group [] c p = [(c, [p])]"
| "push_group ((k, ps) # acc) c p =
     (if k = c then (k, ps @ [p]) # acc else (k, ps) # push_group acc c p)"

fun group_by_category :: "groups \<Rightarrow> UserPreference list \<Rightarrow> thrown + groups" where
  "group_by_category acc [] = Inr acc"
| "group_by_category acc (p # ps) =
     (if pref_category p \<in> set inherited_keys
      then Inl (ErrorObject (utf16 ''acc[p.category].push is not a function''))
      else group_by_category (push_group acc (pref_category p) p) ps)"

text \<open>
  \<^verbatim>\<open>Object.entries\<close> lists the keys that are array indices first (canonical decimal
  numerals below \<open>2^32 - 1\<close>), in ascending order, then the other keys in the order of
  their creation.
\<close>

definition is_digit :: "16 word \<Rightarrow> bool" where
  "is_digit c \<longleftrightarrow> 0x30 \<le> c \<and> c \<le> 0x39"

definition decimal_value :: "js_string \<Rightarrow> nat" where
  "decimal_value s = foldl (\<lambda>n c. 10 * n + (unat c - 48)) 0 s"

definition array_index :: "js_string \<Rightarrow> nat option" where
  "array_index s =
     (if s \<noteq> [] \<and> list_all is_digit s \<and> (hd s \<noteq> 0x30 \<or> length s = 1)
         \<and> decimal_value s < 2 ^ 32 - 1
      then Some (decimal_value s) else None)"

definition entries :: "groups \<Rightarrow> groups" where
  "entries acc =
     sort_key (\<lambda>(k, ps). the (array_index k)) (filter (\<lambda>(k, ps). array_index k \<noteq> None) acc)
     @ filter (\<lambda>(k, ps). array_index k = None) acc"

definition NL :: js_string where
  "NL = [0x0A]"

definition preference_line :: "UserPreference \<Rightarrow> js_string" where
  "preference_line pref = utf16 ''- '' @ pref_key pref @ utf16 '': '' @ pref_value pref @ NL"

definition category_section :: "js_string \<times> UserPreference list \<Rightarrow> js_string" where
  "category_section e =
     (case e of (category, prefs) \<Rightarrow>
        NL @ utf16 ''### '' @ category @ NL @ concat (map preference_line prefs))"

definition memory_line :: "MemoryInput \<Rightarrow> js_string" where
  "memory_line mem = utf16 ''- ['' @ mem_type mem @ utf16 ''] '' @ mem_content mem @ NL"

definition buildSystemPrompt :: "'x AgentConfig \<Rightarrow> store \<Rightarrow> thrown + js_string" where
  "buildSystemPrompt config db =
     (let preferences = getAllPreferences db;
          recentMemories = getMemories None (Some (cfg_role config)) 20 db;
          prompt = systemPrompt config
      in case (if length preferences > 0
               then (case group_by_category [] preferences of
                       Inl e \<Rightarrow> Inl e
                     | Inr grouped \<Rightarrow>
                         Inr (prompt @ NL @ NL @ utf16 ''## User Preferences (learned over time)'' @ NL
                              @ concat (map category_section (entries grouped))))
               else Inr prompt) of
           Inl e \<Rightarrow> Inl e
         | Inr prompt1 \<Rightarrow>
             Inr (if length recentMemories > 0
                  then prompt1 @ NL @ NL @ utf16 ''## Recent Context'' @ NL
                       @ concat (map memory_line (take 10 recentMemories))
                  else prompt1))"

section \<open>executeTools\<close>

definition find_tool :: "'x AgentConfig \<Rightarrow> js_string \<Rightarrow> 'x Tool option" where
  "find_tool config n =
     (case cfg_tools config of None \<Rightarrow> None | Some ts \<Rightarrow> find (\<lambda>t. tool_name t = n) ts)"

fun executeTools ::
  "'x AgentConfig \<Rightarrow> ToolUseBlock list \<Rightarrow> store \<times> 'x \<Rightarrow> ToolResultBlock list \<times> (store \<times> 'x)" where
  "executeTools config [] st = ([], st)"
| "executeTools config (toolCall # toolCalls) st =
     (case find_tool config (call_name toolCall) of
        None \<Rightarrow> executeTools config toolCalls st
      | Some tool \<Rightarrow>
          (case execute tool (call_input toolCall) st of
             (Inr result, st1) \<Rightarrow>
               (case executeTools config toolCalls st1 of
                  (results, st2) \<Rightarrow>
                    (\<lparr>tool_use_id = call_id toolCall, result_content = result,
                      is_error = False\<rparr> # results, st2))
           | (Inl error, st1) \<Rightarrow>
               (case executeTools config toolCalls st1 of
                  (results, st2) \<Rightarrow>
                    (\<lparr>tool_use_id = call_id toolCall,
                      result_content = utf16 ''Error: '' @ error_text error,
                      is_error = True\<rparr> # results, st2))))"

section \<open>chat\<close>

definition history_params :: "Message list \<Rightarrow> MessageParam list" where
  "history_params history =
     map (\<lambda>m. \<lparr>role = msg_role m, param_content = Text (msg_content m)\<rparr>) history"

definition initial_messages :: "Message list \<Rightarrow> js_string \<Rightarrow> MessageParam list" where
  "initial_messages history userMessage =
     (let msgs = history_params history
      in if length msgs = 0 \<or> param_content (msgs ! (length msgs - 1)) \<noteq> Text userMessage
         then msgs @ [\<lparr>role = user, param_content = Text userMessage\<rparr>]
         else msgs)"

definition api_tools :: "'x AgentConfig \<Rightarrow> ToolDecl list" where
  "api_tools config =
     (case cfg_tools config of
        None \<Rightarrow> []
      | Some ts \<Rightarrow> map (\<lambda>t. \<lparr>decl_name = tool_name t, decl_description = tool_description t,
                            input_schema = inputSchema t\<rparr>) ts)"

definition request :: "'x AgentConfig \<Rightarrow> js_string \<Rightarrow> MessageParam list \<Rightarrow> Request" where
  "request config sys msgs =
     \<lparr>model = (case cfg_model config of
                 None \<Rightarrow> utf16 ''claude-sonnet-4-20250514''
               | Some m \<Rightarrow> if m = [] then utf16 ''claude-sonnet-4-20250514'' else m),
      req_max_tokens = 4096,
      system = sys,
      messages = msgs,
      tools = (if length (api_tools config) > 0 then Some (api_tools config) else None)\<rparr>"

text \<open>
  \<^verbatim>\<open>await this.client.messages.create({...})\<close>: the instruction text is built first, and a
  throw of \<^verbatim>\<open>buildSystemPrompt\<close> leaves \<^verbatim>\<open>chat\<close> before the backend is called.
\<close>

definition create ::
  "'x AgentConfig \<Rightarrow> 'b Backend \<Rightarrow> MessageParam list \<Rightarrow> store \<times> 'x \<times> 'b
     \<Rightarrow> (thrown + Response) \<times> (store \<times> 'x \<times> 'b)" where
  "create config backend msgs st =
     (case st of (db, x, b) \<Rightarrow>
        (case buildSystemPrompt config db of
           Inl e \<Rightarrow> (Inl e, (db, x, b))
         | Inr sys \<Rightarrow>
             (case backend (request config sys msgs) b of
                (r, b') \<Rightarrow> (r, (db, x, b')))))"

fun tool_use_blocks :: "ContentBlock list \<Rightarrow> ToolUseBlock list" where
  "tool_use_blocks [] = []"
| "tool_use_blocks (ToolUse c # bs) = c # tool_use_blocks bs"
| "tool_use_blocks (b # bs) = tool_use_blocks bs"

fun first_text :: "ContentBlock list \<Rightarrow> js_string option" where
  "first_text [] = None"
| "first_text (TextBlock t # bs) = Some t"
| "first_text (b # bs) = first_text bs"

text \<open>
  The loop \<^verbatim>\<open>while (response.stop_reason === 'tool_use')\<close> has no bound of its own. The
  model counts its rounds down from \<open>fuel\<close>: \<open>None\<close> says that the loop is still running
  when the fuel is used up.
\<close>

fun tool_loop ::
  "nat \<Rightarrow> 'x AgentConfig \<Rightarrow> 'b Backend \<Rightarrow> Response \<Rightarrow> MessageParam list \<Rightarrow> store \<times> 'x \<times> 'b
     \<Rightarrow> ((thrown + Response) \<times> (store \<times> 'x \<times> 'b)) option" where
  "tool_loop fuel config backend response msgs (db, x, b) =
     (if stop_reason response \<noteq> tool_use then Some (Inr response, (db, x, b))
      else (case fuel of
              0 \<Rightarrow> None
            | Suc n \<Rightarrow>
                (case executeTools config (tool_use_blocks (blocks response)) (db, x) of
                   (toolResults, (db1, x1)) \<Rightarrow>
                     (let msgs1 = msgs @ [\<lparr>role = assistant, param_content = Blocks (blocks response)\<rparr>,
                                          \<lparr>role = user, param_content = Results toolResults\<rparr>]
                      in case create config backend msgs1 (db1, x1, b) of
                           (Inl e, st) \<Rightarrow> Some (Inl e, st)
                         | (Inr response1, st) \<Rightarrow> tool_loop n config backend response1 msgs1 st))))"

text \<open>
  \<^verbatim>\<open>getConversationHistory\<close> is not among the sources, and the message list that \<^verbatim>\<open>chat\<close>
  composes depends on what it returns: \<open>chat_with\<close> is \<^verbatim>\<open>chat\<close> with the replay of the
  history as a parameter, and \<open>chat\<close> is \<open>chat_with\<close> on the store as the specification
  describes it.
\<close>

definition chat_with ::
  "(store \<Rightarrow> js_string \<Rightarrow> Message list) \<Rightarrow> nat \<Rightarrow> 'x AgentConfig \<Rightarrow> js_string \<Rightarrow> 'b Backend
     \<Rightarrow> js_string \<Rightarrow> store \<times> 'x \<times> 'b
     \<Rightarrow> ((thrown + AgentResponse) \<times> (store \<times> 'x \<times> 'b)) option" where
  "chat_with replay fuel config sessionId backend userMessage st =
     (case st of (db, x, b) \<Rightarrow>
        (let db1 = saveConversationMessage db sessionId
                     \<lparr>msg_role = user, msg_content = userMessage, msg_agentRole = None\<rparr>;
             history = replay db1 sessionId;
             msgs = initial_messages history userMessage
         in case create config backend msgs (db1, x, b) of
              (Inl e, st1) \<Rightarrow> Some (Inl e, st1)
            | (Inr response, st1) \<Rightarrow>
                (case tool_loop fuel config backend response msgs st1 of
                   None \<Rightarrow> None
                 | Some (Inl e, st2) \<Rightarrow> Some (Inl e, st2)
                 | Some (Inr final, (db2, x2, b2)) \<Rightarrow>
                     (let responseText = (case first_text (blocks final) of
                                            None \<Rightarrow> [] | Some t \<Rightarrow> t);
                          db3 = saveConversationMessage db2 sessionId
                                  \<lparr>msg_role = assistant, msg_content = responseText,
                                   msg_agentRole = Some (cfg_role config)\<rparr>;
                          agentResponse = parseResponse (cfg_role config) responseText;
                          db4 = (case memoriesToStore agentResponse of
                                   None \<Rightarrow> db3
                                 | Some ms \<Rightarrow> foldl saveMemory db3 ms)
                      in Some (Inr agentResponse, (db4, x2, b2))))))"

definition chat ::
  "nat \<Rightarrow> 'x AgentConfig \<Rightarrow> js_string \<Rightarrow> 'b Backend \<Rightarrow> js_string \<Rightarrow> store \<times> 'x \<times> 'b
     \<Rightarrow> ((thrown + AgentResponse) \<times> (store \<times> 'x \<times> 'b)) option" where
  "chat = chat_with getConversationHistory"

text \<open>A scripted backend answers with the next response of its script, whatever the request.\<close>

fun scripted :: "Response list Backend" where
  "scripted req [] = (Inl (ErrorObject (utf16 ''script exhausted'')), [])"
| "scripted req (r # rs) = (Inr r, rs)"

section \<open>The directive grammar\<close>

text \<open>
  The two bracketed forms as texts: a directive is the literal opening, a token of one or
  more word characters and, for a memory, a bar and a content without closing bracket and
  line terminator, then the closing bracket. A text contains a directive when one occurs
  anywhere in it.
\<close>

definition word_token :: "js_string \<Rightarrow> bool" where
  "word_token tok \<longleftrightarrow> tok \<noteq> [] \<and> list_all is_word_char tok"

definition delegate_directive :: "js_string \<Rightarrow> js_string" where
  "delegate_directive tok = utf16 ''[DELEGATE:'' @ tok @ [RBRACKET]"

definition remember_directive :: "js_string \<Rightarrow> js_string \<Rightarrow> js_string" where
  "remember_directive kind body = utf16 ''[REMEMBER:'' @ kind @ [BAR] @ body @ [RBRACKET]"

definition contains_delegate :: "js_string \<Rightarrow> bool" where
  "contains_delegate s \<longleftrightarrow> (\<exists>a tok b. word_token tok \<and> s = a @ delegate_directive tok @ b)"

definition contains_remember :: "js_string \<Rightarrow> bool" where
  "contains_remember s \<longleftrightarrow>
     (\<exists>a kind body b. word_token kind \<and> list_all is_content_char body
        \<and> s = a @ remember_directive kind body @ b)"

text \<open>
  A text written as prose pieces with delegation directives between them:
  \<open>with_directives p [(t1, q1), (t2, q2)]\<close> is \<open>p [DELEGATE:t1] q1 [DELEGATE:t2] q2\<close>, and
  \<open>without_directives\<close> keeps the prose pieces only.
\<close>

fun with_directives :: "js_string \<Rightarrow> (js_string \<times> js_string) list \<Rightarrow> js_string" where
  "with_directives p [] = p"
| "with_directives p ((tok, q) # segs) = p @ delegate_directive tok @ with_directives q segs"

fun without_directives :: "js_string \<Rightarrow> (js_string \<times> js_string) list \<Rightarrow> js_string" where
  "without_directives p [] = p"
| "without_directives p ((tok, q) # segs) = p @ without_directives q segs"

text \<open>
  What the instruction text is made of: the preferences grouped by category, each group
  holding all preferences of its category in the order of the store, and the two sections
  with their headings.
\<close>

definition grouped :: "groups \<Rightarrow> UserPreference list \<Rightarrow> bool" where
  "grouped g prefs \<longleftrightarrow>
     distinct (map fst g) \<and> set (map fst g) = pref_category ` set prefs
     \<and> (\<forall>(c, ps)\<in>set g. ps = filter (\<lambda>p. pref_category p = c) prefs)"

definition preferences_section :: "groups \<Rightarrow> js_string" where
  "preferences_section g =
     NL @ NL @ utf16 ''## User Preferences (learned over time)'' @ NL @ concat (map category_section g)"

definition context_section :: "MemoryInput list \<Rightarrow> js_string" where
  "context_section mems =
     NL @ NL @ utf16 ''## Recent Context'' @ NL @ concat (map memory_line mems)"








text \<open>
  The requested invocations, run as the specification says: one at a time, in the order
  requested, each on the state that the one before left. A request whose tool is not in the
  registry runs nothing.
\<close>

fun invoke_in_order ::
  "'x AgentConfig \<Rightarrow> ToolUseBlock list \<Rightarrow> store \<times> 'x \<Rightarrow> store \<times> 'x" where
  "invoke_in_order config [] st = st"
| "invoke_in_order config (c # cs) st =
     (case find_tool config (call_name c) of
        None \<Rightarrow> invoke_in_order config cs st
      | Some tool \<Rightarrow> invoke_in_order config cs (snd (execute tool (call_input c) st)))"


definition answer_text :: "Response \<Rightarrow> js_string" where
  "answer_text final = (case first_text (blocks final) of None \<Rightarrow> [] | Some t \<Rightarrow> t)"



section \<open>Example agents\<close>

text \<open>
  An empty store, a configuration with nothing but a role and a tool registry, a tool that
  always throws and a tool that records its inputs in the world outside, for the concrete
  runs below.
\<close>

definition empty_store :: store where
  "empty_store = \<lparr>memories = [], preferences = [], conversations = []\<rparr>"

definition plain_config :: "AgentRole \<Rightarrow> 'x Tool list option \<Rightarrow> 'x AgentConfig" where
  "plain_config r ts = \<lparr>cfg_name = utf16 ''Agent'', cfg_role = r, cfg_description = [],
      systemPrompt = utf16 ''You are helpful.'', cfg_model = None, cfg_tools = ts\<rparr>"

definition failing_tool :: "unit Tool" where
  "failing_tool = \<lparr>tool_name = utf16 ''read_file'', tool_description = [], inputSchema = [],
      execute = (\<lambda>input st. (Inl (ErrorObject (utf16 ''ENOENT'')), st))\<rparr>"


text \<open>
  A backend that records the requests it receives and answers each with a final text, and
  a replay of the history that misses the newest turn.
\<close>

definition recording_backend :: "js_string \<Rightarrow> Request list Backend" where
  "recording_backend answer req log =
     (Inr \<lparr>stop_reason = end_turn, blocks = [TextBlock answer]\<rparr>, log @ [req])"

definition stale_replay :: "store \<Rightarrow> js_string \<Rightarrow> Message list" where
  "stale_replay db sessionId = butlast (getConversationHistory db sessionId)"

section \<open>Unfolding for concrete runs\<close>

lemmas eval_defs = parseResponse_def utf16_def match_delegate_def match_remember_def trim_def
      is_word_char_def is_white_space_def is_line_terminator_def is_content_char_def

lemmas chat_eval_defs = chat_def chat_with_def create_def buildSystemPrompt_def getAllPreferences_def
  getMemories_def saveConversationMessage_def getConversationHistory_def saveMemory_def
  initial_messages_def history_params_def request_def api_tools_def empty_store_def
  plain_config_def find_tool_def

section \<open>The matchers recognise the grammar\<close>

lemma not_word_RBRACKET: "\<not> is_word_char RBRACKET"
  by (simp add: is_word_char_def)

lemma not_word_BAR: "\<not> is_word_char BAR"
  by (simp add: is_word_char_def)

lemma not_content_RBRACKET: "\<not> is_content_char RBRACKET"
  by (simp add: is_content_char_def)

lemma takeWhile_run: "list_all P xs \<Longrightarrow> \<not> P y \<Longrightarrow> takeWhile P (xs @ y # ys) = xs"
  by (induction xs) auto

lemma dropWhile_run: "list_all P xs \<Longrightarrow> \<not> P y \<Longrightarrow> dropWhile P (xs @ y # ys) = y # ys"
  by (induction xs) auto

lemma run_split:
  "dropWhile P xs = y # ys \<Longrightarrow> xs = takeWhile P xs @ y # ys \<and> list_all P (takeWhile P xs) \<and> \<not> P y"
  using takeWhile_dropWhile_id [of P xs] hd_dropWhile [of P xs]
  by (auto simp: list_all_iff dest: set_takeWhileD)

lemma match_delegate_iff:
  "match_delegate s = Some (tok, rest) \<longleftrightarrow> word_token tok \<and> s = delegate_directive tok @ rest"
proof
  assume m: "match_delegate s = Some (tok, rest)"
  then obtain r where r: "literal (utf16 ''[DELEGATE:'') s = Some r"
    by (auto simp: match_delegate_def split: option.splits)
  with m have t: "tok = takeWhile is_word_char r" "tok \<noteq> []"
    and d: "dropWhile is_word_char r = RBRACKET # rest"
    by (auto simp: match_delegate_def Let_def split: list.splits if_splits)
  from run_split [OF d] t r show "word_token tok \<and> s = delegate_directive tok @ rest"
    by (simp add: word_token_def delegate_directive_def literal_iff)
next
  assume a: "word_token tok \<and> s = delegate_directive tok @ rest"
  then have "literal (utf16 ''[DELEGATE:'') s = Some (tok @ RBRACKET # rest)"
    by (simp add: literal_iff delegate_directive_def)
  with a show "match_delegate s = Some (tok, rest)"
    by (simp add: match_delegate_def word_token_def takeWhile_run dropWhile_run not_word_RBRACKET)
qed

lemma match_remember_iff:
  "match_remember s = Some (kind, body, rest) \<longleftrightarrow>
     word_token kind \<and> list_all is_content_char body \<and> s = remember_directive kind body @ rest"
proof
  assume m: "match_remember s = Some (kind, body, rest)"
  then obtain r where r: "literal (utf16 ''[REMEMBER:'') s = Some r"
    by (auto simp: match_remember_def split: option.splits)
  with m obtain r2 where k: "kind = takeWhile is_word_char r" "kind \<noteq> []"
    and d1: "dropWhile is_word_char r = BAR # r2"
    and b: "body = takeWhile is_content_char r2"
    and d2: "dropWhile is_content_char r2 = RBRACKET # rest"
    by (auto simp: match_remember_def Let_def split: list.splits if_splits)
  from run_split [OF d1] run_split [OF d2] k b r
  show "word_token kind \<and> list_all is_content_char body \<and> s = remember_directive kind body @ rest"
    by (simp add: word_token_def remember_directive_def literal_iff)
next
  assume a: "word_token kind \<and> list_all is_content_char body \<and> s = remember_directive kind body @ rest"
  then have "literal (utf16 ''[REMEMBER:'') s = Some (kind @ BAR # body @ RBRACKET # rest)"
    by (simp add: literal_iff remember_directive_def)
  with a show "match_remember s = Some (kind, body, rest)"
    by (simp add: match_remember_def word_token_def takeWhile_run dropWhile_run
        not_word_BAR not_content_RBRACKET)
qed


section \<open>Scanning a text\<close>

lemma first_delegate_None_iff: "first_delegate s = None \<longleftrightarrow> \<not> contains_delegate s"
proof (induction s)
  case Nil
  show ?case by (simp add: contains_delegate_def delegate_directive_def utf16_def)
next
  case (Cons c cs)
  show ?case
  proof (cases "match_delegate (c # cs)")
    case (Some m)
    obtain tok rest where m: "m = (tok, rest)" by (cases m)
    from Some m have "word_token tok \<and> c # cs = [] @ delegate_directive tok @ rest"
      by (simp add: match_delegate_iff)
    then have "contains_delegate (c # cs)" unfolding contains_delegate_def by blast
    with Some m show ?thesis by simp
  next
    case None
    have "contains_delegate (c # cs) \<longleftrightarrow> contains_delegate cs"
    proof
      assume "contains_delegate (c # cs)"
      then obtain a tok b where w: "word_token tok" and e: "c # cs = a @ delegate_directive tok @ b"
        unfolding contains_delegate_def by blast
      have "a \<noteq> []"
      proof
        assume "a = []"
        with w e have "match_delegate (c # cs) = Some (tok, b)" by (simp add: match_delegate_iff)
        with None show False by simp
      qed
      then obtain a' where "a = c # a'" "cs = a' @ delegate_directive tok @ b"
        using e by (cases a) auto
      with w show "contains_delegate cs" unfolding contains_delegate_def by blast
    next
      assume "contains_delegate cs"
      then obtain a tok b where "word_token tok" "cs = a @ delegate_directive tok @ b"
        unfolding contains_delegate_def by blast
      then have "word_token tok \<and> c # cs = (c # a) @ delegate_directive tok @ b" by simp
      then show "contains_delegate (c # cs)" unfolding contains_delegate_def by blast
    qed
    with None Cons show ?thesis by simp
  qed
qed

lemma all_remember_Nil_iff: "all_remember s = [] \<longleftrightarrow> \<not> contains_remember s"
proof (induction s rule: all_remember.induct)
  case 1
  show ?case by (simp add: contains_remember_def remember_directive_def utf16_def)
next
  case (2 c cs)
  show ?case
  proof (cases "match_remember (c # cs)")
    case (Some m)
    obtain kind body rest where m: "m = (kind, body, rest)" by (cases m)
    from Some m have "word_token kind \<and> list_all is_content_char body
        \<and> c # cs = [] @ remember_directive kind body @ rest"
      by (simp add: match_remember_iff)
    then have "contains_remember (c # cs)" unfolding contains_remember_def by blast
    with Some m show ?thesis by simp
  next
    case None
    have "contains_remember (c # cs) \<longleftrightarrow> contains_remember cs"
    proof
      assume "contains_remember (c # cs)"
      then obtain a kind body b where w: "word_token kind" "list_all is_content_char body"
        and e: "c # cs = a @ remember_directive kind body @ b"
        unfolding contains_remember_def by blast
      have "a \<noteq> []"
      proof
        assume "a = []"
        with w e have "match_remember (c # cs) = Some (kind, body, b)"
          by (simp add: match_remember_iff)
        with None show False by simp
      qed
      then obtain a' where "a = c # a'" "cs = a' @ remember_directive kind body @ b"
        using e by (cases a) auto
      with w show "contains_remember cs" unfolding contains_remember_def by blast
    next
      assume "contains_remember cs"
      then obtain a kind body b where "word_token kind" "list_all is_content_char body"
        "cs = a @ remember_directive kind body @ b"
        unfolding contains_remember_def by blast
      then have "word_token kind \<and> list_all is_content_char body
          \<and> c # cs = (c # a) @ remember_directive kind body @ b" by simp
      then show "contains_remember (c # cs)" unfolding contains_remember_def by blast
    qed
    with None 2 show ?thesis by simp
  qed
qed

lemma remove_delegates_id: "first_delegate s = None \<Longrightarrow> remove_delegates s = s"
  by (induction s) (auto split: option.splits)




section \<open>Delegation directives between prose\<close>

lemma delegate_directive_Cons:
  "delegate_directive tok = LBRACKET # utf16 ''DELEGATE:'' @ tok @ [RBRACKET]"
  by (simp add: delegate_directive_def utf16_def)

lemma delegate_directive_tail:
  assumes "word_token tok"
  shows "LBRACKET \<notin> set (tl (delegate_directive tok))"
proof -
  have "LBRACKET \<notin> set tok"
  proof
    assume "LBRACKET \<in> set tok"
    with assms have "is_word_char LBRACKET" by (auto simp: word_token_def list_all_iff)
    then show False by (simp add: is_word_char_def)
  qed
  then show ?thesis by (simp add: delegate_directive_Cons utf16_def)
qed

lemma contains_delegate_tl: "\<not> contains_delegate (c # p) \<Longrightarrow> \<not> contains_delegate p"
proof
  assume n: "\<not> contains_delegate (c # p)" and "contains_delegate p"
  then obtain a tok b where "word_token tok" "p = a @ delegate_directive tok @ b"
    unfolding contains_delegate_def by blast
  then have "word_token tok \<and> c # p = (c # a) @ delegate_directive tok @ b" by simp
  then have "contains_delegate (c # p)" unfolding contains_delegate_def by blast
  with n show False by simp
qed

lemma no_match_before:
  assumes n: "\<not> contains_delegate p" and ne: "p \<noteq> []"
  shows "match_delegate (p @ delegate_directive tok @ rest) = None"
proof (rule ccontr)
  assume "match_delegate (p @ delegate_directive tok @ rest) \<noteq> None"
  then obtain t r where "match_delegate (p @ delegate_directive tok @ rest) = Some (t, r)"
    by auto
  then have w: "word_token t" and e: "p @ delegate_directive tok @ rest = delegate_directive t @ r"
    by (simp_all add: match_delegate_iff)
  from e obtain us where
    "(p = delegate_directive t @ us \<and> us @ delegate_directive tok @ rest = r)
     \<or> (p @ us = delegate_directive t \<and> delegate_directive tok @ rest = us @ r)"
    by (auto simp: append_eq_append_conv2)
  then show False
  proof
    assume "p = delegate_directive t @ us \<and> us @ delegate_directive tok @ rest = r"
    with w have "word_token t \<and> p = [] @ delegate_directive t @ us" by simp
    then have "contains_delegate p" unfolding contains_delegate_def by blast
    with n show False by simp
  next
    assume c: "p @ us = delegate_directive t \<and> delegate_directive tok @ rest = us @ r"
    show False
    proof (cases us)
      case Nil
      with c w have "word_token t \<and> p = [] @ delegate_directive t @ []" by simp
      then have "contains_delegate p" unfolding contains_delegate_def by blast
      with n show False by simp
    next
      case (Cons u us')
      with c have "u = LBRACKET" by (simp add: delegate_directive_Cons)
      moreover obtain c0 p' where "p = c0 # p'" using ne by (cases p) auto
      with c have "tl (delegate_directive t) = p' @ us" by (metis list.sel(3) append_Cons)
      ultimately have "LBRACKET \<in> set (tl (delegate_directive t))" using Cons by simp
      with delegate_directive_tail [OF w] show False by simp
    qed
  qed
qed

lemma remove_delegates_skip:
  "\<not> contains_delegate p \<Longrightarrow> word_token tok \<Longrightarrow>
     remove_delegates (p @ delegate_directive tok @ rest) = p @ remove_delegates rest"
proof (induction p)
  case Nil
  then have "match_delegate (delegate_directive tok @ rest) = Some (tok, rest)"
    by (simp add: match_delegate_iff)
  then show ?case by (simp add: delegate_directive_Cons)
next
  case (Cons c p)
  from Cons.prems(1) have "match_delegate ((c # p) @ delegate_directive tok @ rest) = None"
    by (rule no_match_before) simp
  with Cons contains_delegate_tl [OF Cons.prems(1)] show ?case by simp
qed

lemma first_delegate_skip:
  "\<not> contains_delegate p \<Longrightarrow> word_token tok \<Longrightarrow>
     first_delegate (p @ delegate_directive tok @ rest) = Some tok"
proof (induction p)
  case Nil
  then have "match_delegate (delegate_directive tok @ rest) = Some (tok, rest)"
    by (simp add: match_delegate_iff)
  then show ?case by (simp add: delegate_directive_Cons)
next
  case (Cons c p)
  from Cons.prems(1) have "match_delegate ((c # p) @ delegate_directive tok @ rest) = None"
    by (rule no_match_before) simp
  with Cons contains_delegate_tl [OF Cons.prems(1)] show ?case by simp
qed

lemma remove_delegates_with_directives:
  "\<not> contains_delegate p \<Longrightarrow> \<forall>(tok, q)\<in>set segs. word_token tok \<and> \<not> contains_delegate q \<Longrightarrow>
     remove_delegates (with_directives p segs) = without_directives p segs"
proof (induction segs arbitrary: p)
  case Nil
  then show ?case by (simp add: remove_delegates_id first_delegate_None_iff)
next
  case (Cons seg segs)
  obtain tok q where seg: "seg = (tok, q)" by (cases seg)
  with Cons.prems have "word_token tok" "\<not> contains_delegate q"
    "\<forall>(tok, q)\<in>set segs. word_token tok \<and> \<not> contains_delegate q" by auto
  with Cons.IH [of q] Cons.prems(1) seg show ?case by (simp add: remove_delegates_skip)
qed

lemma parseResponse_content:
  "content (parseResponse r t) = trim (remove_remembers (remove_delegates t))"
  by (simp add: parseResponse_def Let_def)

lemma parseResponse_delegateTo: "delegateTo (parseResponse r t) = first_delegate t"
  by (simp add: parseResponse_def Let_def)

lemma parseResponse_memoriesToStore:
  "memoriesToStore (parseResponse r t) =
     (if all_remember t = [] then None
      else Some (map (\<lambda>(kind, body). \<lparr>mem_type = kind, mem_content = body, mem_metadata = [],
                                        mem_agentRole = Some r\<rparr>) (all_remember t)))"
  by (simp add: parseResponse_def Let_def)

text \<open>
  Claim C8. For every text with one or more delegation directives, written as prose
  pieces (which contain no delegation directive themselves) with the directives between
  them, \<open>parseResponse\<close> gives the token of the first directive as \<open>delegateTo\<close>, and the
  visible text is made of the prose pieces alone, however many directives there are:
  the text of every directive is removed before the memory directives are removed and the
  result is trimmed.
\<close>

theorem parseResponse_first_delegate_all_removed:
  assumes "segs \<noteq> []" and "\<not> contains_delegate p"
    and "\<forall>(tok, q)\<in>set segs. word_token tok \<and> \<not> contains_delegate q"
  shows "delegateTo (parseResponse agentRole (with_directives p segs)) = Some (fst (hd segs))
       \<and> content (parseResponse agentRole (with_directives p segs))
           = trim (remove_remembers (without_directives p segs))"
proof -
  obtain tok q segs' where segs: "segs = (tok, q) # segs'"
    using assms(1) by (cases segs) auto
  with assms(3) have "word_token tok" by simp
  with assms(2) segs have "first_delegate (with_directives p segs) = Some tok"
    by (simp add: first_delegate_skip)
  with segs remove_delegates_with_directives [OF assms(2,3)] show ?thesis
    by (simp add: parseResponse_content parseResponse_delegateTo)
qed


text \<open>Three directives: the first is honoured, all three are removed.\<close>

theorem parseResponse_first_delegate_all_removed_witness:
  "delegateTo (parseResponse Orchestrator
       (utf16 ''On it. [DELEGATE:dev] then [DELEGATE:research] [DELEGATE:comms]'')) = Some (utf16 ''dev'')
   \<and> content (parseResponse Orchestrator
       (utf16 ''On it. [DELEGATE:dev] then [DELEGATE:research] [DELEGATE:comms]'')) = utf16 ''On it.  then''"
proof -
  let ?p = "utf16 ''On it. ''"
  let ?segs = "[(utf16 ''dev'', utf16 '' then ''), (utf16 ''research'', utf16 '' ''), (utf16 ''comms'', [])]"
  have 1: "?segs \<noteq> []" by simp
  have 2: "\<not> contains_delegate ?p"
    unfolding first_delegate_None_iff [symmetric] by (simp add: eval_defs)
  have 3: "\<forall>(tok, q)\<in>set ?segs. word_token tok \<and> \<not> contains_delegate q"
    unfolding first_delegate_None_iff [symmetric] by (simp add: eval_defs word_token_def)
  have 4: "with_directives ?p ?segs
      = utf16 ''On it. [DELEGATE:dev] then [DELEGATE:research] [DELEGATE:comms]''"
    by (simp add: delegate_directive_def utf16_def)
  have 5: "trim (remove_remembers (without_directives ?p ?segs)) = utf16 ''On it.  then''"
    by (simp add: eval_defs)
  from parseResponse_first_delegate_all_removed [OF 1 2 3, of Orchestrator]
  show ?thesis unfolding 4 5 by simp
qed

text \<open>
  Every text can be written in this way: the scan splits it at the directives it finds,
  and the pieces between them contain no directive.
\<close>

lemma with_directives_append: "with_directives (a @ p) segs = a @ with_directives p segs"
  by (cases segs) auto

lemma contains_delegate_Cons:
  assumes "match_delegate (c # cs) = None"
  shows "contains_delegate (c # cs) \<longleftrightarrow> contains_delegate cs"
  using assms first_delegate_None_iff [of "c # cs"] first_delegate_None_iff [of cs] by simp

lemma delegate_decomposition:
  "\<exists>p segs. s = with_directives p segs \<and> \<not> contains_delegate p
      \<and> (\<forall>(tok, q)\<in>set segs. word_token tok \<and> \<not> contains_delegate q)
      \<and> (contains_delegate s \<longrightarrow> segs \<noteq> [])"
proof (induction s rule: remove_delegates.induct)
  case 1
  have "[] = with_directives [] [] \<and> \<not> contains_delegate []
      \<and> (\<forall>(tok, q)\<in>set []. word_token tok \<and> \<not> contains_delegate q)
      \<and> (contains_delegate [] \<longrightarrow> [] \<noteq> ([] :: (js_string \<times> js_string) list))"
    using first_delegate_None_iff [of "[]"] by simp
  then show ?case by blast
next
  case (2 c cs)
  show ?case
  proof (cases "match_delegate (c # cs)")
    case None
    with 2 obtain p segs where d: "cs = with_directives p segs" "\<not> contains_delegate p"
      "\<forall>(tok, q)\<in>set segs. word_token tok \<and> \<not> contains_delegate q"
      "contains_delegate cs \<longrightarrow> segs \<noteq> []" by auto
    have "match_delegate (c # p) = None"
    proof (rule ccontr)
      assume "match_delegate (c # p) \<noteq> None"
      then obtain t r where "match_delegate (c # p) = Some (t, r)" by auto
      then have "word_token t \<and> c # p = delegate_directive t @ r" by (simp add: match_delegate_iff)
      then have "word_token t \<and> c # cs = delegate_directive t @ (r @ with_directives [] segs)"
        using d(1) with_directives_append [of p "[]" segs] by (metis append_Cons append_Nil2 append_assoc)
      then have "match_delegate (c # cs) = Some (t, r @ with_directives [] segs)"
        by (simp add: match_delegate_iff)
      with None show False by simp
    qed
    with d(2) have "\<not> contains_delegate (c # p)" by (simp add: contains_delegate_Cons)
    moreover have "c # cs = with_directives (c # p) segs"
      using d(1) with_directives_append [of "[c]" p segs] by simp
    moreover have "contains_delegate (c # cs) \<longrightarrow> segs \<noteq> []"
      using d(4) None by (simp add: contains_delegate_Cons)
    ultimately show ?thesis using d(3) by blast
  next
    case (Some m)
    obtain tok rest where m: "m = (tok, rest)" by (cases m)
    with Some have w: "word_token tok" and e: "c # cs = delegate_directive tok @ rest"
      by (simp_all add: match_delegate_iff)
    from "2.IH"(2) Some m obtain q segs where d: "rest = with_directives q segs" "\<not> contains_delegate q"
      "\<forall>(tok, q)\<in>set segs. word_token tok \<and> \<not> contains_delegate q" by blast
    have "c # cs = with_directives [] ((tok, q) # segs)" using e d(1) by simp
    moreover have "\<not> contains_delegate []" using first_delegate_None_iff [of "[]"] by simp
    moreover have "\<forall>(tok, q)\<in>set ((tok, q) # segs). word_token tok \<and> \<not> contains_delegate q"
      using w d(2,3) by simp
    moreover have "(tok, q) # segs \<noteq> []" by simp
    ultimately show ?thesis by blast
  qed
qed

section \<open>The example of the specification\<close>

text \<open>
  Claim C5. On the text \<^verbatim>\<open>Done. [DELEGATE:dev] [REMEMBER:preference|likes terse replies]\<close>
  \<open>parseResponse\<close> gives the visible text \<^verbatim>\<open>Done.\<close>, the delegation target \<^verbatim>\<open>dev\<close> and
  exactly one memory record, of kind \<^verbatim>\<open>preference\<close> with the content
  \<^verbatim>\<open>likes terse replies\<close>, empty metadata and the role of the agent.
\<close>

theorem parseResponse_example:
  "parseResponse agentRole (utf16 ''Done. [DELEGATE:dev] [REMEMBER:preference|likes terse replies]'')
     = \<lparr>content = utf16 ''Done.'', delegateTo = Some (utf16 ''dev''),
        memoriesToStore = Some [\<lparr>mem_type = utf16 ''preference'',
          mem_content = utf16 ''likes terse replies'', mem_metadata = [],
          mem_agentRole = Some agentRole\<rparr>]\<rparr>"
  by (simp add: eval_defs)

theorem parseResponse_example_witness:
  "parseResponse Research (utf16 ''Done. [DELEGATE:dev] [REMEMBER:preference|likes terse replies]'')
     = \<lparr>content = utf16 ''Done.'', delegateTo = Some (utf16 ''dev''),
        memoriesToStore = Some [\<lparr>mem_type = utf16 ''preference'',
          mem_content = utf16 ''likes terse replies'', mem_metadata = [],
          mem_agentRole = Some Research\<rparr>]\<rparr>"
  by (rule parseResponse_example)

section \<open>Memory records and their directives\<close>

text \<open>
  The lazy \<^verbatim>\<open>(.*?)\<close> also matches the empty text: the directive \<^verbatim>\<open>[REMEMBER:fact|]\<close>
  gives a memory record whose content is the empty string, and \<open>chat\<close> stores it.
\<close>

theorem remember_empty_content_counterexample:
  "memoriesToStore (parseResponse Dev (utf16 ''Noted. [REMEMBER:fact|]''))
     = Some [\<lparr>mem_type = utf16 ''fact'', mem_content = [], mem_metadata = [],
              mem_agentRole = Some Dev\<rparr>]
   \<and> chat 0 (plain_config Dev None) (utf16 ''s1'') scripted (utf16 ''hi'')
       (empty_store, (), [\<lparr>stop_reason = end_turn,
                           blocks = [TextBlock (utf16 ''Noted. [REMEMBER:fact|]'')]\<rparr>])
     = Some (Inr \<lparr>content = utf16 ''Noted.'', delegateTo = None,
                  memoriesToStore = Some [\<lparr>mem_type = utf16 ''fact'', mem_content = [],
                                            mem_metadata = [], mem_agentRole = Some Dev\<rparr>]\<rparr>,
         (\<lparr>memories = [\<lparr>mem_type = utf16 ''fact'', mem_content = [], mem_metadata = [],
                        mem_agentRole = Some Dev\<rparr>],
           preferences = [],
           conversations =
             [(utf16 ''s1'', \<lparr>msg_role = user, msg_content = utf16 ''hi'', msg_agentRole = None\<rparr>),
              (utf16 ''s1'', \<lparr>msg_role = assistant, msg_content = utf16 ''Noted. [REMEMBER:fact|]'',
                              msg_agentRole = Some Dev\<rparr>)]\<rparr>, (), []))"
  by (simp add: chat_eval_defs eval_defs)

lemma all_remember_occurs:
  "(kind, body) \<in> set (all_remember s) \<Longrightarrow>
     \<exists>pre post. s = pre @ remember_directive kind body @ post
        \<and> word_token kind \<and> list_all is_content_char body"
proof (induction s rule: all_remember.induct)
  case 1
  then show ?case by simp
next
  case (2 c cs)
  show ?case
  proof (cases "match_remember (c # cs)")
    case None
    with 2 obtain pre post where "cs = pre @ remember_directive kind body @ post"
      "word_token kind" "list_all is_content_char body" by auto
    then have "c # cs = (c # pre) @ remember_directive kind body @ post
        \<and> word_token kind \<and> list_all is_content_char body" by simp
    then show ?thesis by blast
  next
    case (Some m)
    obtain k b rest where m: "m = (k, b, rest)" by (cases m)
    with Some have e: "word_token k" "list_all is_content_char b"
      "c # cs = remember_directive k b @ rest" by (simp_all add: match_remember_iff)
    from 2(3) Some m have "(kind, body) = (k, b) \<or> (kind, body) \<in> set (all_remember rest)"
      by simp
    then show ?thesis
    proof
      assume "(kind, body) = (k, b)"
      with e have "c # cs = [] @ remember_directive kind body @ rest
        \<and> word_token kind \<and> list_all is_content_char body" by simp
      then show ?thesis by blast
    next
      assume "(kind, body) \<in> set (all_remember rest)"
      with "2.IH"(2) Some m
      have "\<exists>pre post. rest = pre @ remember_directive kind body @ post
        \<and> word_token kind \<and> list_all is_content_char body" by blast
      then obtain pre post where "rest = pre @ remember_directive kind body @ post"
        "word_token kind" "list_all is_content_char body" by blast
      with e have "c # cs = (remember_directive k b @ pre) @ remember_directive kind body @ post
        \<and> word_token kind \<and> list_all is_content_char body" by simp
      then show ?thesis by blast
    qed
  qed
qed

text \<open>
  Claim C6, amended. Every memory record of \<open>parseResponse\<close> comes from a directive
  \<^verbatim>\<open>[REMEMBER:kind|content]\<close> that occurs in the text: its kind is the token, its content is
  exactly the text between the bar and the next closing bracket (without closing bracket
  and line terminator, and empty when the directive has nothing there), its metadata is
  empty and its role is the role of the agent.
\<close>

theorem remember_record_from_directive:
  assumes "memoriesToStore (parseResponse agentRole t) = Some ms" and "m \<in> set ms"
  shows "\<exists>pre post. t = pre @ remember_directive (mem_type m) (mem_content m) @ post
           \<and> word_token (mem_type m) \<and> list_all is_content_char (mem_content m)
           \<and> mem_metadata m = [] \<and> mem_agentRole m = Some agentRole"
proof -
  from assms obtain kind body where kb: "(kind, body) \<in> set (all_remember t)"
    and m: "m = \<lparr>mem_type = kind, mem_content = body, mem_metadata = [],
                 mem_agentRole = Some agentRole\<rparr>"
    by (auto simp: parseResponse_memoriesToStore split: if_splits)
  from all_remember_occurs [OF kb] m show ?thesis by simp
qed


theorem remember_record_from_directive_witness:
  "\<exists>pre post. utf16 ''Noted. [REMEMBER:fact|the sky is blue] Bye''
       = pre @ remember_directive (utf16 ''fact'') (utf16 ''the sky is blue'') @ post"
proof -
  let ?m = "\<lparr>mem_type = utf16 ''fact'', mem_content = utf16 ''the sky is blue'',
             mem_metadata = [], mem_agentRole = Some Dev\<rparr>"
  have 1: "memoriesToStore (parseResponse Dev (utf16 ''Noted. [REMEMBER:fact|the sky is blue] Bye''))
      = Some [?m]"
    by (simp add: eval_defs)
  have 2: "?m \<in> set [?m]" by simp
  from remember_record_from_directive [OF 1 2] show ?thesis by simp
qed

section \<open>Applying parseResponse twice\<close>



















section \<open>Building the instruction text\<close>

lemma group_by_category_throws:
  "\<exists>p\<in>set ps. pref_category p \<in> set inherited_keys \<Longrightarrow>
     group_by_category acc ps = Inl (ErrorObject (utf16 ''acc[p.category].push is not a function''))"
  by (induction ps arbitrary: acc) auto

text \<open>
  Claim C7 says that the instruction text is built for every store state. The code
  groups the preferences in an ordinary object, so a preference whose category is a name
  that every object inherits (\<^verbatim>\<open>constructor\<close>, \<^verbatim>\<open>toString\<close>, ...) makes
  \<open>buildSystemPrompt\<close> throw instead of returning a text; the tool \<^verbatim>\<open>save_preference\<close>
  stores any category that it is given.
\<close>

theorem buildSystemPrompt_inherited_category_throws:
  assumes "p \<in> set (getAllPreferences db)" and "pref_category p \<in> set inherited_keys"
  shows "buildSystemPrompt config db
     = Inl (ErrorObject (utf16 ''acc[p.category].push is not a function''))"
proof -
  from assms have "group_by_category [] (getAllPreferences db)
      = Inl (ErrorObject (utf16 ''acc[p.category].push is not a function''))"
    by (intro group_by_category_throws) blast
  moreover from assms(1) have "length (getAllPreferences db) > 0" by (cases "getAllPreferences db") auto
  ultimately show ?thesis by (simp add: buildSystemPrompt_def Let_def)
qed

text \<open>
  One preference of the category \<^verbatim>\<open>constructor\<close>.
\<close>

theorem buildSystemPrompt_inherited_category_throws_witness:
  "buildSystemPrompt (plain_config Orchestrator None)
     \<lparr>memories = [],
      preferences = [\<lparr>pref_key = utf16 ''reply_style'', pref_value = utf16 ''terse'',
                      pref_category = utf16 ''constructor''\<rparr>],
      conversations = []\<rparr>
   = Inl (ErrorObject (utf16 ''acc[p.category].push is not a function''))"
proof -
  let ?p = "\<lparr>pref_key = utf16 ''reply_style'', pref_value = utf16 ''terse'',
             pref_category = utf16 ''constructor''\<rparr>"
  let ?db = "\<lparr>memories = [], preferences = [?p], conversations = []\<rparr>"
  have 1: "?p \<in> set (getAllPreferences ?db)" by (simp add: getAllPreferences_def)
  have 2: "pref_category ?p \<in> set inherited_keys" by (simp add: inherited_keys_def)
  from buildSystemPrompt_inherited_category_throws [OF 1 2] show ?thesis .
qed

lemma push_group_keys:
  "set (map fst (push_group acc c p)) = insert c (set (map fst acc))"
  by (induction acc c p rule: push_group.induct) auto

lemma push_group_distinct:
  "distinct (map fst acc) \<Longrightarrow> distinct (map fst (push_group acc c p))"
proof (induction acc c p rule: push_group.induct)
  case (1 c p)
  show ?case by simp
next
  case (2 k ps acc c p)
  then show ?case using push_group_keys [of acc c p] by auto
qed

lemma push_group_member:
  "distinct (map fst acc) \<Longrightarrow> (k, l) \<in> set (push_group acc c p) \<Longrightarrow>
     (k \<noteq> c \<and> (k, l) \<in> set acc)
     \<or> (k = c \<and> ((\<exists>l0. (c, l0) \<in> set acc \<and> l = l0 @ [p]) \<or> (c \<notin> set (map fst acc) \<and> l = [p])))"
proof (induction acc c p rule: push_group.induct)
  case (1 c p)
  then show ?case by simp
next
  case (2 k' ps acc c p)
  show ?case
  proof (cases "k' = c")
    case True
    with 2 show ?thesis by (auto simp: rev_image_eqI)
  next
    case False
    with 2 show ?thesis by auto
  qed
qed

lemma grouped_push:
  assumes "grouped acc seen"
  shows "grouped (push_group acc (pref_category p) p) (seen @ [p])"
  unfolding grouped_def
proof (intro conjI)
  from assms show "distinct (map fst (push_group acc (pref_category p) p))"
    by (simp add: grouped_def push_group_distinct)
  from assms show "set (map fst (push_group acc (pref_category p) p)) = pref_category ` set (seen @ [p])"
    using push_group_keys [of acc "pref_category p" p] by (auto simp: grouped_def)
  show "\<forall>(c, ps)\<in>set (push_group acc (pref_category p) p).
          ps = filter (\<lambda>q. pref_category q = c) (seen @ [p])"
  proof (clarify)
    fix k l assume m: "(k, l) \<in> set (push_group acc (pref_category p) p)"
    from assms have d: "distinct (map fst acc)" by (simp add: grouped_def)
    from assms have f: "\<And>c ps. (c, ps) \<in> set acc \<Longrightarrow> ps = filter (\<lambda>q. pref_category q = c) seen"
      by (auto simp: grouped_def)
    from assms have ks: "set (map fst acc) = pref_category ` set seen" by (simp add: grouped_def)
    from push_group_member [OF d m]
    show "l = filter (\<lambda>q. pref_category q = k) (seen @ [p])"
    proof (elim disjE conjE exE)
      assume "k \<noteq> pref_category p" "(k, l) \<in> set acc"
      with f [of k l] show ?thesis by auto
    next
      fix l0 assume "k = pref_category p" "(pref_category p, l0) \<in> set acc" "l = l0 @ [p]"
      with f [of "pref_category p" l0] show ?thesis by simp
    next
      assume k: "k = pref_category p" and n: "pref_category p \<notin> set (map fst acc)" and l: "l = [p]"
      from n ks have "pref_category p \<notin> pref_category ` set seen" by simp
      then have "filter (\<lambda>q. pref_category q = pref_category p) seen = []"
        unfolding filter_empty_conv by (metis imageI)
      with k l show ?thesis by simp
    qed
  qed
qed

lemma group_by_category_grouped:
  "grouped acc seen \<Longrightarrow> \<forall>p\<in>set ps. pref_category p \<notin> set inherited_keys \<Longrightarrow>
     \<exists>g. group_by_category acc ps = Inr g \<and> grouped g (seen @ ps)"
proof (induction ps arbitrary: acc seen)
  case Nil
  then show ?case by simp
next
  case (Cons p ps)
  from Cons.prems have "grouped (push_group acc (pref_category p) p) (seen @ [p])"
    by (simp add: grouped_push)
  from Cons.IH [OF this] Cons.prems(2) show ?case by simp
qed

lemma entries_grouped: "grouped g prefs \<Longrightarrow> grouped (entries g) prefs"
proof -
  assume g: "grouped g prefs"
  let ?P = "\<lambda>(k, ps). array_index k \<noteq> None"
  let ?Q = "\<lambda>(k, ps). array_index k = None"
  have s: "set (entries g) = set g" by (auto simp: entries_def)
  from g have dg: "distinct g" and inj: "inj_on fst (set g)"
    by (simp_all add: grouped_def distinct_map)
  have "distinct (entries g)" using dg by (auto simp: entries_def)
  with inj s have "distinct (map fst (entries g))" by (simp add: distinct_map)
  with g s show ?thesis by (simp add: grouped_def)
qed

text \<open>
  When no category is an inherited name, the instruction text is the static prompt, then
  the section of the preferences, all of them and grouped by category, then the section
  of at most ten of the twenty most recent memories of the role; a section without entries
  is left out.
\<close>

lemma buildSystemPrompt_sections:
  assumes "\<forall>p\<in>set (getAllPreferences db). pref_category p \<notin> set inherited_keys"
  shows "\<exists>g. grouped g (getAllPreferences db)
     \<and> buildSystemPrompt config db
       = Inr (systemPrompt config
              @ (if getAllPreferences db = [] then [] else preferences_section g)
              @ (if getMemories None (Some (cfg_role config)) 20 db = [] then []
                 else context_section (take 10 (getMemories None (Some (cfg_role config)) 20 db))))"
proof -
  have "grouped [] []" by (simp add: grouped_def)
  from group_by_category_grouped [OF this assms] obtain g0 where
    g0: "group_by_category [] (getAllPreferences db) = Inr g0" "grouped g0 (getAllPreferences db)"
    by auto
  from g0(2) have "grouped (entries g0) (getAllPreferences db)" by (rule entries_grouped)
  moreover have "buildSystemPrompt config db
       = Inr (systemPrompt config
              @ (if getAllPreferences db = [] then [] else preferences_section (entries g0))
              @ (if getMemories None (Some (cfg_role config)) 20 db = [] then []
                 else context_section (take 10 (getMemories None (Some (cfg_role config)) 20 db))))"
    using g0(1) by (simp add: buildSystemPrompt_def Let_def preferences_section_def context_section_def)
  ultimately show ?thesis by blast
qed

lemma getMemories_role:
  "m \<in> set (getMemories None (Some r) n db) \<Longrightarrow> mem_agentRole m = Some r"
  by (auto simp: getMemories_def dest: in_set_takeD)

lemma getMemories_length: "length (take 10 (getMemories kind r 20 db)) \<le> 10"
  by simp

section \<open>Running the requested tools\<close>

lemma executeTools_append:
  "executeTools config (xs @ ys) st =
     (case executeTools config xs st of
        (rs1, st1) \<Rightarrow> (case executeTools config ys st1 of (rs2, st2) \<Rightarrow> (rs1 @ rs2, st2)))"
  by (induction xs arbitrary: st) (auto split: option.splits prod.splits sum.splits)

text \<open>
  The results carry the call-ids of the requests whose tool is in the registry, once each
  and in the order of the requests.
\<close>

lemma executeTools_result_ids:
  "map tool_use_id (fst (executeTools config calls st))
     = map call_id (filter (\<lambda>c. find_tool config (call_name c) \<noteq> None) calls)"
proof (induction calls arbitrary: st)
  case Nil
  show ?case by simp
next
  case (Cons c calls)
  show ?case
  proof (cases "find_tool config (call_name c)")
    case None
    with Cons show ?thesis by simp
  next
    case (Some tool)
    obtain out st1 where e: "execute tool (call_input c) st = (out, st1)"
      by (cases "execute tool (call_input c) st")
    obtain rs st2 where r: "executeTools config calls st1 = (rs, st2)"
      by (cases "executeTools config calls st1")
    from Cons [of st1] r have "map tool_use_id rs
        = map call_id (filter (\<lambda>c. find_tool config (call_name c) \<noteq> None) calls)" by simp
    with Some e r show ?thesis by (cases out) simp_all
  qed
qed

text \<open>
  Claim C2 asks for one result block per requested invocation, also when the name of the
  tool is not in the registry. \<open>executeTools\<close> has no branch for a tool that is not found:
  such a request gets no result block, and nothing else happens.
\<close>

theorem executeTools_unknown_tool_no_result:
  "find_tool config (call_name toolCall) = None \<Longrightarrow> executeTools config [toolCall] st = ([], st)"
  by simp

text \<open>
  A registry with the tool \<^verbatim>\<open>read_file\<close> and a request for \<^verbatim>\<open>write_file\<close>.
\<close>

theorem executeTools_unknown_tool_no_result_witness:
  "executeTools (plain_config Dev (Some [failing_tool]))
     [\<lparr>call_id = utf16 ''toolu_9'', call_name = utf16 ''write_file'', call_input = []\<rparr>]
     (empty_store, ()) = ([], (empty_store, ()))"
proof -
  have "find_tool (plain_config Dev (Some [failing_tool]))
      (call_name \<lparr>call_id = utf16 ''toolu_9'', call_name = utf16 ''write_file'', call_input = []\<rparr>) = None"
    by (simp add: find_tool_def plain_config_def failing_tool_def utf16_def)
  from executeTools_unknown_tool_no_result [OF this] show ?thesis .
qed

text \<open>
  Claim C4. When a requested tool is in the registry and its \<open>execute\<close> throws, the round
  does not throw: the result list holds, at the place of the request, a block with the
  call-id of the request, the text \<^verbatim>\<open>Error: \<close> followed by the description of the failure,
  and \<open>is_error\<close> set; the loop appends the request and the results to the message list
  and goes on with the next call of the backend.
\<close>

theorem tool_failure_continues:
  assumes found: "find_tool config (call_name c) = Some tool"
    and before: "executeTools config pre (db, x) = (rs1, st1)"
    and fails: "execute tool (call_input c) st1 = (Inl e, st2)"
    and after: "executeTools config post st2 = (rs2, (db3, x3))"
    and stop: "stop_reason response = tool_use"
    and calls: "tool_use_blocks (blocks response) = pre @ c # post"
  shows "executeTools config (pre @ c # post) (db, x)
       = (rs1 @ \<lparr>tool_use_id = call_id c, result_content = utf16 ''Error: '' @ error_text e,
                 is_error = True\<rparr> # rs2, (db3, x3))
     \<and> tool_loop (Suc n) config backend response msgs (db, x, b)
       = (case create config backend
                (msgs @ [\<lparr>role = assistant, param_content = Blocks (blocks response)\<rparr>,
                         \<lparr>role = user, param_content = Results
                            (rs1 @ \<lparr>tool_use_id = call_id c,
                                    result_content = utf16 ''Error: '' @ error_text e,
                                    is_error = True\<rparr> # rs2)\<rparr>])
                (db3, x3, b) of
            (Inl e1, st) \<Rightarrow> Some (Inl e1, st)
          | (Inr response1, st) \<Rightarrow>
              tool_loop n config backend response1
                (msgs @ [\<lparr>role = assistant, param_content = Blocks (blocks response)\<rparr>,
                         \<lparr>role = user, param_content = Results
                            (rs1 @ \<lparr>tool_use_id = call_id c,
                                    result_content = utf16 ''Error: '' @ error_text e,
                                    is_error = True\<rparr> # rs2)\<rparr>]) st)"
proof -
  have ex: "executeTools config (pre @ c # post) (db, x)
       = (rs1 @ \<lparr>tool_use_id = call_id c, result_content = utf16 ''Error: '' @ error_text e,
                 is_error = True\<rparr> # rs2, (db3, x3))"
    using found before fails after by (simp add: executeTools_append)
  with stop calls show ?thesis by (simp add: Let_def)
qed

text \<open>
  A tool that throws \<^verbatim>\<open>ENOENT\<close>, and a backend that answers the error with a final text.
\<close>

theorem tool_failure_continues_witness:
  "executeTools (plain_config Dev (Some [failing_tool]))
       [\<lparr>call_id = utf16 ''toolu_1'', call_name = utf16 ''read_file'', call_input = []\<rparr>]
       (empty_store, ())
     = ([\<lparr>tool_use_id = utf16 ''toolu_1'', result_content = utf16 ''Error: ENOENT'',
          is_error = True\<rparr>], (empty_store, ()))
   \<and> tool_loop 1 (plain_config Dev (Some [failing_tool])) scripted
       \<lparr>stop_reason = tool_use,
        blocks = [ToolUse \<lparr>call_id = utf16 ''toolu_1'', call_name = utf16 ''read_file'', call_input = []\<rparr>]\<rparr>
       [] (empty_store, (), [\<lparr>stop_reason = end_turn, blocks = [TextBlock (utf16 ''No such file.'')]\<rparr>])
     = Some (Inr \<lparr>stop_reason = end_turn, blocks = [TextBlock (utf16 ''No such file.'')]\<rparr>,
             (empty_store, (), []))"
proof -
  let ?config = "plain_config Dev (Some [failing_tool])"
  let ?c = "\<lparr>call_id = utf16 ''toolu_1'', call_name = utf16 ''read_file'', call_input = []\<rparr>"
  let ?response = "\<lparr>stop_reason = tool_use, blocks = [ToolUse ?c]\<rparr>"
  have 1: "find_tool ?config (call_name ?c) = Some failing_tool"
    by (simp add: find_tool_def plain_config_def failing_tool_def utf16_def)
  have 2: "executeTools ?config [] (empty_store, ()) = ([], (empty_store, ()))" by simp
  have 3: "execute failing_tool (call_input ?c) (empty_store, ())
      = (Inl (ErrorObject (utf16 ''ENOENT'')), (empty_store, ()))"
    by (simp add: failing_tool_def)
  have 4: "executeTools ?config [] (empty_store, ()) = ([], (empty_store, ()))" by simp
  have 5: "stop_reason ?response = tool_use" by simp
  have 6: "tool_use_blocks (blocks ?response) = [] @ ?c # []" by simp
  from tool_failure_continues [OF 1 2 3 4 5 6, of 0 scripted "[]"
      "[\<lparr>stop_reason = end_turn, blocks = [TextBlock (utf16 ''No such file.'')]\<rparr>]"]
  show ?thesis
    by (simp add: create_def buildSystemPrompt_def getAllPreferences_def getMemories_def
        empty_store_def plain_config_def utf16_def)
qed

section \<open>The conversation log\<close>

lemma conversations_foldl_saveMemory: "conversations (foldl saveMemory db ms) = conversations db"
  by (induction ms arbitrary: db) (simp_all add: saveMemory_def)

lemma getConversationHistory_foldl_saveMemory:
  "getConversationHistory (foldl saveMemory db ms) sid = getConversationHistory db sid"
  by (simp add: getConversationHistory_def conversations_foldl_saveMemory)

lemma getConversationHistory_save:
  "getConversationHistory (saveConversationMessage db sid m) sid = getConversationHistory db sid @ [m]"
  by (simp add: getConversationHistory_def saveConversationMessage_def)

section \<open>The message list of a turn\<close>

lemma initial_messages_cases:
  "initial_messages history userMessage =
     (if history = [] \<or> msg_content (last history) \<noteq> userMessage
      then history_params history @ [\<lparr>role = user, param_content = Text userMessage\<rparr>]
      else history_params history)"
proof (cases "history = []")
  case True
  then show ?thesis by (simp add: initial_messages_def history_params_def)
next
  case False
  then have "param_content (history_params history ! (length (history_params history) - 1))
      = Text (msg_content (last history))"
    by (simp add: history_params_def last_conv_nth)
  moreover from False have "history_params history \<noteq> []" by (simp add: history_params_def)
  ultimately show ?thesis using False by (simp add: initial_messages_def Let_def)
qed

text \<open>
  With the store as the specification describes it, the replayed history ends with the
  user turn that \<open>chat\<close> has just saved.
\<close>

lemma replay_ends_with_message:
  "getConversationHistory (saveConversationMessage db sessionId m) sessionId \<noteq> []
   \<and> last (getConversationHistory (saveConversationMessage db sessionId m) sessionId) = m"
  by (simp add: getConversationHistory_save)

text \<open>
  Claim C10. \<open>chat\<close> saves the user turn, replays the history and sends the backend a
  request whose message list is the replayed history, followed by the user message only
  if the history is empty or the content of its last entry differs from the message;
  otherwise the replayed list goes out as it is. The backend here records the request it
  receives, and the replay is any function of the store, the one of \<open>chat\<close> among them.
  When the instruction text does not build, \<open>chat\<close> fails before any request.
\<close>

theorem chat_sends_composed_messages:
  assumes start: "db0 = saveConversationMessage db sessionId
                    \<lparr>msg_role = user, msg_content = userMessage, msg_agentRole = None\<rparr>"
    and replayed: "history = replay db0 sessionId"
    and composed: "msgs = (if history = [] \<or> msg_content (last history) \<noteq> userMessage
                           then history_params history
                                @ [\<lparr>role = user, param_content = Text userMessage\<rparr>]
                           else history_params history)"
  shows "case buildSystemPrompt config db0 of
           Inl e \<Rightarrow>
             chat_with replay fuel config sessionId (recording_backend answer) userMessage (db, x, log)
               = Some (Inl e, (db0, x, log))
         | Inr sys \<Rightarrow>
             (\<exists>resp db1.
                chat_with replay fuel config sessionId (recording_backend answer) userMessage (db, x, log)
                  = Some (Inr resp, (db1, x, log @ [request config sys msgs])))"
proof (cases "buildSystemPrompt config db0")
  case (Inl e)
  then show ?thesis
    unfolding start by (simp add: chat_with_def create_def Let_def)
next
  case (Inr sys)
  have m: "initial_messages (replay db0 sessionId) userMessage = msgs"
    unfolding composed replayed by (rule initial_messages_cases)
  have c: "create config (recording_backend answer) msgs (db0, x, log)
      = (Inr \<lparr>stop_reason = end_turn, blocks = [TextBlock answer]\<rparr>,
         (db0, x, log @ [request config sys msgs]))"
    using Inr by (simp add: create_def recording_backend_def)
  have "\<exists>resp db1.
          chat_with replay fuel config sessionId (recording_backend answer) userMessage (db, x, log)
            = Some (Inr resp, (db1, x, log @ [request config sys msgs]))"
    unfolding chat_with_def using c m by (simp add: start [symmetric] Let_def)
  with Inr show ?thesis by simp
qed

text \<open>
  A history that ends with the message because the replay holds the turn just saved, and a
  replay that misses that turn: the outgoing list is the same, once without and once with
  the append.
\<close>

theorem chat_sends_composed_messages_witness:
  "(\<exists>resp db1.
      chat 0 (plain_config Dev None) (utf16 ''s1'')
          (recording_backend (utf16 ''On it.'')) (utf16 ''fix it'')
          (\<lparr>memories = [], preferences = [],
            conversations = [(utf16 ''s1'', \<lparr>msg_role = assistant, msg_content = utf16 ''Hello'',
                                            msg_agentRole = Some Dev\<rparr>)]\<rparr>, (), [])
        = Some (Inr resp, (db1, (),
            [request (plain_config Dev None :: unit AgentConfig) (utf16 ''You are helpful.'')
               [\<lparr>role = assistant, param_content = Text (utf16 ''Hello'')\<rparr>,
                \<lparr>role = user, param_content = Text (utf16 ''fix it'')\<rparr>]])))
   \<and> (\<exists>resp db1.
      chat_with stale_replay 0 (plain_config Dev None) (utf16 ''s1'')
          (recording_backend (utf16 ''On it.'')) (utf16 ''fix it'')
          (\<lparr>memories = [], preferences = [],
            conversations = [(utf16 ''s1'', \<lparr>msg_role = assistant, msg_content = utf16 ''Hello'',
                                            msg_agentRole = Some Dev\<rparr>)]\<rparr>, (), [])
        = Some (Inr resp, (db1, (),
            [request (plain_config Dev None :: unit AgentConfig) (utf16 ''You are helpful.'')
               [\<lparr>role = assistant, param_content = Text (utf16 ''Hello'')\<rparr>,
                \<lparr>role = user, param_content = Text (utf16 ''fix it'')\<rparr>]])))"
proof -
  let ?db = "\<lparr>memories = [], preferences = [],
            conversations = [(utf16 ''s1'', \<lparr>msg_role = assistant, msg_content = utf16 ''Hello'',
                                            msg_agentRole = Some Dev\<rparr>)]\<rparr>"
  let ?saved = "saveConversationMessage ?db (utf16 ''s1'')
                \<lparr>msg_role = user, msg_content = utf16 ''fix it'', msg_agentRole = None\<rparr>"
  have p: "buildSystemPrompt (plain_config Dev None) ?saved = Inr (utf16 ''You are helpful.'')"
    by (simp add: buildSystemPrompt_def getAllPreferences_def getMemories_def
        saveConversationMessage_def plain_config_def)
  have 1: "(if getConversationHistory ?saved (utf16 ''s1'') = []
              \<or> msg_content (last (getConversationHistory ?saved (utf16 ''s1''))) \<noteq> utf16 ''fix it''
            then history_params (getConversationHistory ?saved (utf16 ''s1''))
                 @ [\<lparr>role = user, param_content = Text (utf16 ''fix it'')\<rparr>]
            else history_params (getConversationHistory ?saved (utf16 ''s1'')))
      = [\<lparr>role = assistant, param_content = Text (utf16 ''Hello'')\<rparr>,
         \<lparr>role = user, param_content = Text (utf16 ''fix it'')\<rparr>]"
    by (simp add: getConversationHistory_def saveConversationMessage_def history_params_def)
  have 2: "(if stale_replay ?saved (utf16 ''s1'') = []
              \<or> msg_content (last (stale_replay ?saved (utf16 ''s1''))) \<noteq> utf16 ''fix it''
            then history_params (stale_replay ?saved (utf16 ''s1''))
                 @ [\<lparr>role = user, param_content = Text (utf16 ''fix it'')\<rparr>]
            else history_params (stale_replay ?saved (utf16 ''s1'')))
      = [\<lparr>role = assistant, param_content = Text (utf16 ''Hello'')\<rparr>,
         \<lparr>role = user, param_content = Text (utf16 ''fix it'')\<rparr>]"
    by (simp add: stale_replay_def getConversationHistory_def saveConversationMessage_def
        history_params_def utf16_def)
  from chat_sends_composed_messages [where config = "plain_config Dev None"
      and db = ?db and sessionId = "utf16 ''s1''" and userMessage = "utf16 ''fix it''"
      and replay = getConversationHistory and fuel = 0 and answer = "utf16 ''On it.''"
      and x = "()" and log = "[]", OF refl refl refl]
    chat_sends_composed_messages [where config = "plain_config Dev None"
      and db = ?db and sessionId = "utf16 ''s1''" and userMessage = "utf16 ''fix it''"
      and replay = stale_replay and fuel = 0 and answer = "utf16 ''On it.''"
      and x = "()" and log = "[]", OF refl refl refl]
  show ?thesis unfolding chat_def p 1 2 by simp
qed

section \<open>A whole turn\<close>

text \<open>
  \<open>chat\<close> saves the response text before \<open>parseResponse\<close> strips it: the persisted
  turn reads \<^verbatim>\<open>Done. [DELEGATE:dev]\<close>, the returned visible text \<^verbatim>\<open>Done.\<close>
\<close>

theorem chat_persists_markup_counterexample:
  "chat 0 (plain_config Orchestrator None) (utf16 ''s1'') scripted (utf16 ''hi'')
     (empty_store, (), [\<lparr>stop_reason = end_turn, blocks = [TextBlock (utf16 ''Done. [DELEGATE:dev]'')]\<rparr>])
   = Some (Inr \<lparr>content = utf16 ''Done.'', delegateTo = Some (utf16 ''dev''), memoriesToStore = None\<rparr>,
       (\<lparr>memories = [], preferences = [],
         conversations = [(utf16 ''s1'', \<lparr>msg_role = user, msg_content = utf16 ''hi'', msg_agentRole = None\<rparr>),
            (utf16 ''s1'', \<lparr>msg_role = assistant, msg_content = utf16 ''Done. [DELEGATE:dev]'',
                msg_agentRole = Some Orchestrator\<rparr>)]\<rparr>, (), []))"
  by (simp add: chat_eval_defs eval_defs)

lemma tool_loop_ends:
  "tool_loop fuel config backend response msgs st = Some (Inr final, st1) \<Longrightarrow>
     stop_reason final \<noteq> tool_use"
proof (induction fuel config backend response msgs st rule: tool_loop.induct)
  case (1 fuel config backend response msgs db x b)
  show ?case
  proof (cases "stop_reason response \<noteq> tool_use")
    case True
    with "1.prems" show ?thesis by simp
  next
    case False
    then obtain n where n: "fuel = Suc n" using "1.prems" by (cases fuel) auto
    obtain res db1 x1 where e: "executeTools config (tool_use_blocks (blocks response)) (db, x)
        = (res, (db1, x1))"
      by (cases "executeTools config (tool_use_blocks (blocks response)) (db, x)") auto
    let ?m = "msgs @ [\<lparr>role = assistant, param_content = Blocks (blocks response)\<rparr>,
                      \<lparr>role = user, param_content = Results res\<rparr>]"
    obtain out st2 where c: "create config backend ?m (db1, x1, b) = (out, st2)"
      by (cases "create config backend ?m (db1, x1, b)")
    show ?thesis
    proof (cases out)
      case (Inl err)
      with "1.prems" False n e c show ?thesis by (simp add: Let_def)
    next
      case (Inr response1)
      with "1.prems" False n e c
      have "tool_loop n config backend response1 ?m st2 = Some (Inr final, st1)"
        by (simp add: Let_def)
      with "1.IH" [OF _ n e [symmetric] refl refl c [symmetric, unfolded Inr] ] False show ?thesis
        by simp
    qed
  qed
qed

text \<open>
  Claim C1, amended. For every completed turn, the loop has ended on a response of the
  backend that asks for no tool, and the assistant turn that \<open>chat\<close> then appended to the
  history of the session has as content the raw text of that final answer (its first text
  block, or the empty string), directives included, and is tagged with the role of the
  agent; what \<open>chat\<close> returns is \<open>parseResponse\<close> of that persisted content.
\<close>

theorem chat_persists_raw_text:
  assumes run: "chat fuel config sessionId backend userMessage (db, x, b)
                  = Some (Inr resp, (db1, x1, b1))"
    and start: "db0 = saveConversationMessage db sessionId
                  \<lparr>msg_role = user, msg_content = userMessage, msg_agentRole = None\<rparr>"
    and sent: "msgs = initial_messages (getConversationHistory db0 sessionId) userMessage"
  shows "\<exists>response st1 final db2.
           create config backend msgs (db0, x, b) = (Inr response, st1)
         \<and> tool_loop fuel config backend response msgs st1 = Some (Inr final, (db2, x1, b1))
         \<and> stop_reason final \<noteq> tool_use
         \<and> getConversationHistory db1 sessionId
             = getConversationHistory db2 sessionId
               @ [\<lparr>msg_role = assistant, msg_content = answer_text final,
                   msg_agentRole = Some (cfg_role config)\<rparr>]
         \<and> resp = parseResponse (cfg_role config) (answer_text final)"
proof -
  from run obtain response st1 where
    c: "create config backend msgs (db0, x, b) = (Inr response, st1)"
    unfolding start sent
    by (auto simp: chat_def chat_with_def Let_def split: prod.splits sum.splits)
  with run obtain final db2 where
    l: "tool_loop fuel config backend response msgs st1 = Some (Inr final, (db2, x1, b1))"
    unfolding start sent
    by (auto simp: chat_def chat_with_def Let_def split: prod.splits sum.splits option.splits)
  let ?db3 = "saveConversationMessage db2 sessionId
                \<lparr>msg_role = assistant, msg_content = answer_text final,
                 msg_agentRole = Some (cfg_role config)\<rparr>"
  from run c l have r: "resp = parseResponse (cfg_role config) (answer_text final)"
    and d: "db1 = (case memoriesToStore (parseResponse (cfg_role config) (answer_text final)) of
                     None \<Rightarrow> ?db3 | Some ms \<Rightarrow> foldl saveMemory ?db3 ms)"
    unfolding start sent answer_text_def by (auto simp: chat_def chat_with_def Let_def)
  from d have "getConversationHistory db1 sessionId = getConversationHistory ?db3 sessionId"
    by (simp add: getConversationHistory_foldl_saveMemory split: option.splits)
  then have h: "getConversationHistory db1 sessionId
      = getConversationHistory db2 sessionId
        @ [\<lparr>msg_role = assistant, msg_content = answer_text final,
            msg_agentRole = Some (cfg_role config)\<rparr>]"
    by (simp add: getConversationHistory_save)
  from l have "stop_reason final \<noteq> tool_use" by (rule tool_loop_ends)
  with c l h r show ?thesis by blast
qed

theorem chat_persists_raw_text_witness:
  "\<exists>response st1 final db2.
     create (plain_config Orchestrator None) scripted
       (initial_messages
          (getConversationHistory
             (saveConversationMessage empty_store (utf16 ''s1'')
                \<lparr>msg_role = user, msg_content = utf16 ''hi'', msg_agentRole = None\<rparr>)
             (utf16 ''s1''))
          (utf16 ''hi''))
       (saveConversationMessage empty_store (utf16 ''s1'')
          \<lparr>msg_role = user, msg_content = utf16 ''hi'', msg_agentRole = None\<rparr>,
        (), [\<lparr>stop_reason = end_turn, blocks = [TextBlock (utf16 ''Done. [DELEGATE:dev]'')]\<rparr>])
       = (Inr response, st1)
   \<and> tool_loop 0 (plain_config Orchestrator None) scripted response
       (initial_messages
          (getConversationHistory
             (saveConversationMessage empty_store (utf16 ''s1'')
                \<lparr>msg_role = user, msg_content = utf16 ''hi'', msg_agentRole = None\<rparr>)
             (utf16 ''s1''))
          (utf16 ''hi''))
       st1 = Some (Inr final, (db2, (), []))
   \<and> stop_reason final \<noteq> tool_use
   \<and> getConversationHistory
       \<lparr>memories = [], preferences = [],
        conversations =
          [(utf16 ''s1'', \<lparr>msg_role = user, msg_content = utf16 ''hi'', msg_agentRole = None\<rparr>),
           (utf16 ''s1'', \<lparr>msg_role = assistant, msg_content = utf16 ''Done. [DELEGATE:dev]'',
                           msg_agentRole = Some Orchestrator\<rparr>)]\<rparr>
       (utf16 ''s1'')
       = getConversationHistory db2 (utf16 ''s1'')
         @ [\<lparr>msg_role = assistant, msg_content = answer_text final,
             msg_agentRole = Some (cfg_role (plain_config Orchestrator None :: unit AgentConfig))\<rparr>]
   \<and> \<lparr>content = utf16 ''Done.'', delegateTo = Some (utf16 ''dev''), memoriesToStore = None\<rparr>
       = parseResponse (cfg_role (plain_config Orchestrator None :: unit AgentConfig)) (answer_text final)"
proof -
  have "chat 0 (plain_config Orchestrator None) (utf16 ''s1'') scripted (utf16 ''hi'')
     (empty_store, (), [\<lparr>stop_reason = end_turn, blocks = [TextBlock (utf16 ''Done. [DELEGATE:dev]'')]\<rparr>])
   = Some (Inr \<lparr>content = utf16 ''Done.'', delegateTo = Some (utf16 ''dev''), memoriesToStore = None\<rparr>,
       (\<lparr>memories = [], preferences = [],
         conversations = [(utf16 ''s1'', \<lparr>msg_role = user, msg_content = utf16 ''hi'', msg_agentRole = None\<rparr>),
            (utf16 ''s1'', \<lparr>msg_role = assistant, msg_content = utf16 ''Done. [DELEGATE:dev]'',
                msg_agentRole = Some Orchestrator\<rparr>)]\<rparr>, (), []))"
    by (simp add: chat_eval_defs eval_defs)
  from chat_persists_raw_text [OF this refl refl] show ?thesis .
qed

section \<open>Scripted rounds of tool requests\<close>



text \<open>
  Two requests of registered tools are two invocations, the second on the state of the first.
\<close>

lemma invoke_in_order_two:
  assumes "find_tool config (call_name c1) = Some tool1"
    and "find_tool config (call_name c2) = Some tool2"
  shows "invoke_in_order config [c1, c2] st
     = snd (execute tool2 (call_input c2) (snd (execute tool1 (call_input c1) st)))"
  using assms by simp











end
